theory Spec2Isabelle
  imports Main "HOL-Library.AList"
begin

section \<open>Values, strings and characters\<close>

text \<open>
  The template tag of \<^verbatim>\<open>src/template.ts\<close> receives the raw text fragments of a template
  literal (\<^verbatim>\<open>spans\<close>) and the interpolated JavaScript values (\<^verbatim>\<open>expressions\<close>).
  A JavaScript string is modelled as a \<^typ>\<open>string\<close> whose characters are the code units
  below 256. Values of type \<^verbatim>\<open>unknown\<close> are modelled by \<open>val\<close>: the primitive values
  the parser distinguishes with \<^verbatim>\<open>typeof\<close> and \<^verbatim>\<open>!= null\<close>, integral numbers, and
  objects and functions, which carry the address that is their identity, so that
  \<^verbatim>\<open>===\<close> on two values is equality in HOL. An object carries its own enumerable
  properties in insertion order, a function its source text.
\<close>

datatype val =
    VUndefined
  | VNull
  | VBool bool
  | VNum int
  | VStr string
  | VObject nat "(string \<times> val) list"
  | VFunction nat string

type_synonym record_props = "(string \<times> val) list"

definition backslash :: char where
  "backslash = CHR 0x5C"

definition dquote :: char where
  "dquote = CHR 0x22"

definition squote :: char where
  "squote = CHR 0x27"

definition CR :: char where
  "CR = CHR 0x0D"

definition LF :: char where
  "LF = CHR 0x0A"

text \<open>The class \<^verbatim>\<open>\s\<close> on code units below 256: tab, line feed, vertical tab, form feed,
  carriage return, space and the no-break space.\<close>

definition is_space :: "char \<Rightarrow> bool" where
  "is_space c \<longleftrightarrow> c \<in> set [CHR 0x09, CHR 0x0A, CHR 0x0B, CHR 0x0C, CHR 0x0D, CHR 0x20, CHR 0xA0]"

text \<open>The class \<^verbatim>\<open>[-_$\w]\<close> of the identifiers, with \<^verbatim>\<open>\w\<close> the ASCII letters, digits and
  the underscore.\<close>

definition is_ident :: "char \<Rightarrow> bool" where
  "is_ident c \<longleftrightarrow>
     (let n = (of_char c :: nat) in
        (97 \<le> n \<and> n \<le> 122) \<or> (65 \<le> n \<and> n \<le> 90) \<or> (48 \<le> n \<and> n \<le> 57)
        \<or> n = 95 \<or> n = 45 \<or> n = 36)"

text \<open>\<^verbatim>\<open>s.replace(/^\s*/, "")\<close>, \<^verbatim>\<open>s.replace(/\s*$/, "")\<close> and \<^verbatim>\<open>s.trim()\<close>.\<close>

definition strip_start :: "string \<Rightarrow> string" where
  "strip_start s = dropWhile is_space s"

definition strip_end :: "string \<Rightarrow> string" where
  "strip_end s = rev (dropWhile is_space (rev s))"

definition trim :: "string \<Rightarrow> string" where
  "trim s = strip_end (strip_start s)"

text \<open>\<^verbatim>\<open>String(exp)\<close>: the text itself for a string, and the decimal digits for a number, as
  JavaScript prints an integer of magnitude below \<open>10\<^sup>2\<^sup>1\<close> (from there on it uses the exponent
  notation, which is not modelled).\<close>

fun digits :: "nat \<Rightarrow> string" where
  "digits n =
     (if n < 10 then [''0123456789'' ! n]
      else digits (n div 10) @ [''0123456789'' ! (n mod 10)])"

declare digits.simps [simp del]

fun String :: "val \<Rightarrow> string" where
  "String VUndefined = ''undefined''"
| "String VNull = ''null''"
| "String (VBool b) = (if b then ''true'' else ''false'')"
| "String (VNum n) = (if n < 0 then CHR ''-'' # digits (nat (- n)) else digits (nat n))"
| "String (VStr s) = s"
| "String (VObject a ps) = ''[object Object]''"
| "String (VFunction a src) = src"

text \<open>\<^verbatim>\<open>typeof exp === "boolean"\<close> and \<^verbatim>\<open>exp == null\<close>.\<close>

fun is_boolean :: "val \<Rightarrow> bool" where
  "is_boolean (VBool b) = True"
| "is_boolean v = False"

fun is_nullish :: "val \<Rightarrow> bool" where
  "is_nullish VUndefined = True"
| "is_nullish VNull = True"
| "is_nullish v = False"

text \<open>
  The own enumerable properties that an object spread \<^verbatim>\<open>{...v}\<close> copies: those of an
  object, the indexed characters of a string, none for the other values.
\<close>

fun own_entries :: "val \<Rightarrow> record_props" where
  "own_entries (VObject a ps) = ps"
| "own_entries (VStr s) = zip (map digits [0..<length s]) (map (\<lambda>c. VStr [c]) s)"
| "own_entries v = []"

text \<open>
  \<^verbatim>\<open>{...a, ...b}\<close> on property lists: the result starts as the properties of \<open>a\<close>
  (none when \<open>a\<close> is \<^verbatim>\<open>null\<close>), and every pair of \<open>b\<close> is written into it in order, where a
  key that is present keeps its place and takes the new value. (JavaScript moves
  integer-like keys to the front of the enumeration; lookups do not depend on it.)
\<close>

definition assign :: "record_props \<Rightarrow> record_props \<Rightarrow> record_props" where
  "assign target source = fold (\<lambda>(k, v). AList.update k v) source target"

definition spread_props :: "record_props option \<Rightarrow> record_props \<Rightarrow> record_props option" where
  "spread_props p source = Some (assign (case p of None \<Rightarrow> [] | Some ps \<Rightarrow> ps) source)"

section \<open>The parse tree\<close>

text \<open>\<^verbatim>\<open>interface ParseElement\<close> and \<^verbatim>\<open>interface ParseValue\<close>; \<^verbatim>\<open>props\<close> is \<^verbatim>\<open>null\<close> or
  a record.\<close>

datatype ParseElement =
    ParseElement (tag: val) (props: "record_props option") (children: "ParseNode list")
and ParseNode =
    ElementNode ParseElement
  | ValueNode val

definition push_child :: "ParseElement \<Rightarrow> ParseNode \<Rightarrow> ParseElement" where
  "push_child e n = ParseElement (tag e) (props e) (children e @ [n])"

definition set_props :: "ParseElement \<Rightarrow> record_props option \<Rightarrow> ParseElement" where
  "set_props e p = ParseElement (tag e) p (children e)"

section \<open>The regular expressions\<close>

text \<open>
  Every regular expression of the source has the flag \<^verbatim>\<open>g\<close>, and \<^verbatim>\<open>exec\<close> is called after
  \<^verbatim>\<open>lastIndex = i\<close>: it returns the match at the least index \<open>\<ge> i\<close> at which the
  expression matches. No expression looks behind its starting point, so a match depends on
  \<^verbatim>\<open>span.slice(i)\<close> only. Each expression is modelled by the function that tries it at the
  start of a text and returns the length of the match with the groups the parser reads;
  \<open>exec\<close> searches for the first suffix where it succeeds and returns the offset
  \<^verbatim>\<open>match.index - i\<close> as well.
\<close>

fun exec :: "(string \<Rightarrow> (nat \<times> 'g) option) \<Rightarrow> string \<Rightarrow> (nat \<times> nat \<times> 'g) option" where
  "exec re [] = (case re [] of None \<Rightarrow> None | Some (n, g) \<Rightarrow> Some (0, n, g))"
| "exec re (c # cs) =
     (case re (c # cs) of
        Some (n, g) \<Rightarrow> Some (0, n, g)
      | None \<Rightarrow> (case exec re cs of None \<Rightarrow> None | Some (k, n, g) \<Rightarrow> Some (Suc k, n, g)))"

subsection \<open>\<^verbatim>\<open>CHILDREN_RE\<close>\<close>

text \<open>
  \<^verbatim>\<open>/((?:\r|\n|\r\n)\s*)|(<!--[\S\s]*?(?:-->|$))|(<\s*(\/{0,2})\s*([-_$\w]*))/g\<close>

  Group 1 is a line break with the white space after it, group 2 a comment up to the first
  \<^verbatim>\<open>-->\<close> or else to the end of the text, group 3 a tag: \<^verbatim>\<open><\<close>, white space, at most two
  slashes (group 4), white space, and the longest, possibly empty, identifier (group 5).
\<close>

datatype children_groups =
    Newline
  | Comment
  | Tag string string

fun comment_body :: "string \<Rightarrow> nat" where
  "comment_body [] = 0"
| "comment_body (c # cs) = (if take 3 (c # cs) = ''-->'' then 3 else Suc (comment_body cs))"

definition children_re :: "string \<Rightarrow> (nat \<times> children_groups) option" where
  "children_re s =
     (case s of
        [] \<Rightarrow> None
      | c # cs \<Rightarrow>
          if c = CR \<or> c = LF then Some (1 + length (takeWhile is_space cs), Newline)
          else if take 4 s = ''<!--'' then Some (4 + comment_body (drop 4 s), Comment)
          else if c = CHR ''<'' then
            (let ws1 = takeWhile is_space cs;
                 r1 = dropWhile is_space cs;
                 slash = take 2 (takeWhile (\<lambda>x. x = CHR ''/'') r1);
                 r2 = drop (length slash) r1;
                 ws2 = takeWhile is_space r2;
                 r3 = dropWhile is_space r2;
                 tagName = takeWhile is_ident r3
             in Some (1 + length ws1 + length slash + length ws2 + length tagName,
                      Tag slash tagName))
          else None)"

subsection \<open>\<^verbatim>\<open>PROPS_RE\<close>\<close>

text \<open>
  \<^verbatim>\<open>/\s*(?:(\/?\s*>)|(\.\.\.\s*)|(?:([-_$\w]+)\s*(=)?\s*(?:("(\\"|[\S\s])*?(?:"|$)|'(?:\\'|[\S\s])*?(?:'|$)))?))/g\<close>

  After white space: the end of the tag (group 1), a spread marker (group 2), or a name
  (group 3) with an optional \<^verbatim>\<open>=\<close> (group 4) and an optional string (group 5). The
  string starts at a quote and runs lazily to the first occurrence of the same quote that
  the scan does not pass as part of a pair backslash-quote, or else to the end of the text.
\<close>

datatype props_groups =
    TagEnd string
  | Spread
  | Prop string bool "string option"

fun string_body :: "char \<Rightarrow> string \<Rightarrow> nat" where
  "string_body q [] = 0"
| "string_body q [c] = 1"
| "string_body q (c # d # cs) =
     (if c = q then 1
      else if c = backslash \<and> d = q then 2 + string_body q cs
      else 1 + string_body q (d # cs))"

definition string_re :: "string \<Rightarrow> nat option" where
  "string_re s =
     (case s of
        [] \<Rightarrow> None
      | q # cs \<Rightarrow> if q = dquote \<or> q = squote then Some (1 + string_body q cs) else None)"

definition tag_end_re :: "string \<Rightarrow> nat option" where
  "tag_end_re s =
     (let sl = (if s \<noteq> [] \<and> hd s = CHR ''/'' then 1 else 0);
          r = drop sl s;
          ws = takeWhile is_space r
      in if take 1 (dropWhile is_space r) = ''>'' then Some (sl + length ws + 1) else None)"

definition props_re :: "string \<Rightarrow> (nat \<times> props_groups) option" where
  "props_re s =
     (let n0 = length (takeWhile is_space s);
          r0 = dropWhile is_space s
      in case tag_end_re r0 of
           Some n \<Rightarrow> Some (n0 + n, TagEnd (take n r0))
         | None \<Rightarrow>
             if take 3 r0 = ''...'' then
               Some (n0 + 3 + length (takeWhile is_space (drop 3 r0)), Spread)
             else
               (let name = takeWhile is_ident r0;
                    r1 = dropWhile is_ident r0;
                    ws1 = takeWhile is_space r1;
                    r2 = dropWhile is_space r1;
                    equals = (take 1 r2 = ''='');
                    r3 = (if equals then drop 1 r2 else r2);
                    ws2 = takeWhile is_space r3;
                    r4 = dropWhile is_space r3;
                    n4 = n0 + length name + length ws1 + (if equals then 1 else 0) + length ws2
                in if name = [] then None
                   else case string_re r4 of
                          None \<Rightarrow> Some (n4, Prop name equals None)
                        | Some m \<Rightarrow> Some (n4 + m, Prop name equals (Some (take m r4)))))"

subsection \<open>The closing expressions\<close>

text \<open>\<^verbatim>\<open>CLOSING_TAG_RE = />/g\<close>, \<^verbatim>\<open>CLOSING_SINGLE_QUOTE_RE = /[^\\]?'/g\<close>,
  \<^verbatim>\<open>CLOSING_DOUBLE_QUOTE_RE = /[^\\]?"/g\<close> and \<^verbatim>\<open>CLOSING_COMMENT_RE = /-->/g\<close>.\<close>

definition closing_tag_re :: "string \<Rightarrow> (nat \<times> unit) option" where
  "closing_tag_re s = (if take 1 s = ''>'' then Some (1, ()) else None)"

definition closing_quote_re :: "char \<Rightarrow> string \<Rightarrow> (nat \<times> unit) option" where
  "closing_quote_re q s =
     (case s of
        [] \<Rightarrow> None
      | c # cs \<Rightarrow>
          if c \<noteq> backslash \<and> take 1 cs = [q] then Some (2, ())
          else if c = q then Some (1, ())
          else None)"

definition closing_comment_re :: "string \<Rightarrow> (nat \<times> unit) option" where
  "closing_comment_re s = (if take 3 s = ''-->'' then Some (3, ()) else None)"

section \<open>\<^verbatim>\<open>formatString\<close>\<close>

text \<open>
  \<^verbatim>\<open>str.slice(1, -1).replace(/\\(.?)/g, "$1")\<close>: the first and the last character are
  dropped, then every backslash is removed and the character after it is kept as it is
  (a line break after a backslash is not part of the match and is kept as well).
\<close>

fun unescape :: "string \<Rightarrow> string" where
  "unescape [] = []"
| "unescape [c] = (if c = backslash then [] else [c])"
| "unescape (c # d # cs) = (if c = backslash then d # unescape cs else c # unescape (d # cs))"

definition formatString :: "string \<Rightarrow> string" where
  "formatString str = unescape (butlast (tl str))"

section \<open>The parser state\<close>

text \<open>
  Every \<^verbatim>\<open>throw new SyntaxError(...)\<close> of \<^verbatim>\<open>parse\<close> is a constructor, with the values
  that the message is built from. \<open>StackUnderflow\<close> stands for the one failure the source
  does not check: \<^verbatim>\<open>stack.pop()!\<close> at a self-closing tag with an empty stack, which would
  leave \<^verbatim>\<open>current\<close> undefined.
\<close>

datatype error =
    UnmatchedClosingTag val
  | MismatchedClosingTag val val
  | UnmatchedOpeningTag val
  | MissingSpreadExpression val
  | ExpressionExpected
  | UnexpectedText string
  | UnexpectedExpression val
  | MissingCommentTerminator
  | StackUnderflow

datatype regexp =
    CHILDREN_RE
  | PROPS_RE
  | CLOSING_TAG_RE
  | CLOSING_SINGLE_QUOTE_RE
  | CLOSING_DOUBLE_QUOTE_RE
  | CLOSING_COMMENT_RE

text \<open>
  The local variables of \<^verbatim>\<open>parse\<close>. The source keeps \<^verbatim>\<open>current\<close> as a reference to an
  object that is already the last child of the element on top of \<^verbatim>\<open>stack\<close>, and mutates
  it in place. Here \<open>stack\<close> holds the open ancestors without that last child (innermost
  first), and the child is attached when it is popped: nothing is pushed onto an ancestor's
  children while a descendant is \<^verbatim>\<open>current\<close>, so the order of the children is the same.
\<close>

record pstate =
  current :: ParseElement
  stack :: "ParseElement list"
  matcher :: regexp
  lineStart :: bool
  propName :: string
  propValue :: string
  expressing :: bool

definition initial :: pstate where
  "initial = \<lparr>current = ParseElement (VStr []) None [], stack = [], matcher = CHILDREN_RE,
     lineStart = True, propName = [], propValue = [], expressing = False\<rparr>"

text \<open>\<^verbatim>\<open>current.children.push(node)\<close>\<close>

definition push :: "ParseNode \<Rightarrow> pstate \<Rightarrow> pstate" where
  "push n st = st\<lparr>current := push_child (current st) n\<rparr>"

text \<open>\<^verbatim>\<open>current = stack.pop()!\<close>\<close>

definition pop :: "pstate \<Rightarrow> error + pstate" where
  "pop st =
     (case stack st of
        [] \<Rightarrow> Inl StackUnderflow
      | parent # ps \<Rightarrow>
          Inr (st\<lparr>current := push_child parent (ElementNode (current st)), stack := ps\<rparr>))"

text \<open>\<^verbatim>\<open>stack.push(current); current.children.push(next); current = next\<close>\<close>

definition open_element :: "val \<Rightarrow> pstate \<Rightarrow> pstate" where
  "open_element t st = st\<lparr>stack := current st # stack st, current := ParseElement t None []\<rparr>"

text \<open>\<^verbatim>\<open>current.props = {...current.props, ...source}\<close>\<close>

definition assign_props :: "record_props \<Rightarrow> pstate \<Rightarrow> pstate" where
  "assign_props source st =
     st\<lparr>current := set_props (current st) (spread_props (props (current st)) source)\<rparr>"

section \<open>One iteration of the scanning loop\<close>

text \<open>
  In all of the following, \<open>rest\<close> is \<^verbatim>\<open>span.slice(i)\<close>, \<open>exp\<close> is \<^verbatim>\<open>expressions[s]\<close>, the
  match is given as \<open>(k, n, groups)\<close> with \<open>k = match.index - i\<close> and
  \<open>n = match[0].length\<close>, and the result holds the new state with \<^verbatim>\<open>end - i\<close>.
\<close>

text \<open>Lines 141 to 156: the text before a marker.\<close>

definition text_before :: "bool \<Rightarrow> bool \<Rightarrow> string \<Rightarrow> string" where
  "text_before line_start newline raw =
     (let beforeText = (if line_start then strip_start raw else raw)
      in if newline then
           (if last raw = backslash then butlast beforeText else strip_end beforeText)
         else beforeText)"

text \<open>Lines 220 to 224: the expression after the last marker of a span is a child.\<close>

definition child_expression :: "val \<Rightarrow> bool \<Rightarrow> pstate \<Rightarrow> pstate" where
  "child_expression exp at_end st =
     (if expressing st \<and> at_end
      then (push (ValueNode exp) st)\<lparr>lineStart := False, expressing := False\<rparr>
      else st)"

text \<open>Lines 172 to 205: an opening or a closing tag.\<close>

definition tag_case :: "val \<Rightarrow> bool \<Rightarrow> string \<Rightarrow> string \<Rightarrow> pstate \<Rightarrow> error + pstate" where
  "tag_case exp at_end slash tagName st =
     (let t = (if expressing st \<and> at_end then exp else VStr tagName);
          st1 = (if expressing st \<and> at_end then st\<lparr>expressing := False\<rparr> else st)
      in if slash \<noteq> [] then
           (if stack st1 = [] then Inl (UnmatchedClosingTag t)
            else if slash \<noteq> ''//'' \<and> tag (current st1) \<noteq> t
              then Inl (MismatchedClosingTag t (tag (current st1)))
            else map_sum id (\<lambda>st2. st2\<lparr>matcher := CLOSING_TAG_RE\<rparr>) (pop st1))
         else Inr ((open_element t st1)\<lparr>matcher := PROPS_RE\<rparr>))"

text \<open>Lines 137 to 226: \<^verbatim>\<open>case CHILDREN_RE\<close>.\<close>

definition children_case ::
  "val \<Rightarrow> pstate \<Rightarrow> string \<Rightarrow> (nat \<times> nat \<times> children_groups) option \<Rightarrow> error + pstate \<times> nat"
where
  "children_case exp st rest m =
     (case m of
        Some (k, n, g) \<Rightarrow>
          (let at_end = (k + n = length rest);
               st1 = (if 0 < k then
                        (let beforeText = text_before (lineStart st) (g = Newline) (take k rest)
                         in if beforeText \<noteq> [] then push (ValueNode (VStr beforeText)) st
                            else st)
                      else st);
               st2 = st1\<lparr>lineStart := (g = Newline)\<rparr>;
               r = (case g of
                      Newline \<Rightarrow> Inr st2
                    | Comment \<Rightarrow>
                        Inr (if at_end
                             then st2\<lparr>matcher := CLOSING_COMMENT_RE, expressing := False\<rparr>
                             else st2)
                    | Tag slash tagName \<Rightarrow> tag_case exp at_end slash tagName st2)
           in map_sum id (\<lambda>st3. (child_expression exp at_end st3, k + n)) r)
      | None \<Rightarrow>
          (let after = (if \<not> expressing st then strip_end rest else rest);
               st1 = (if after \<noteq> [] then push (ValueNode (VStr after)) st else st)
           in Inr (child_expression exp True st1, length rest)))"

text \<open>
  \<^verbatim>\<open>if (...) { propValue += typeof exp === "string" ? exp : String(exp); }\<close> at lines 123,
  280 and 336, where \<open>skip\<close> says that the test fails.
\<close>

definition append_expression :: "val \<Rightarrow> bool \<Rightarrow> string \<Rightarrow> string" where
  "append_expression exp skip s = (if skip then s else s @ String exp)"

text \<open>Lines 259 to 295: a prop with its name, and what follows it.\<close>

definition prop_case ::
  "val \<Rightarrow> pstate \<Rightarrow> string \<Rightarrow> nat \<Rightarrow> string \<Rightarrow> bool \<Rightarrow> string option \<Rightarrow> error + pstate"
where
  "prop_case exp st rest n name equals string =
     (case string of
        None \<Rightarrow>
          if \<not> equals then Inr (assign_props [(name, VBool True)] st)
          else if n < length rest then Inl (UnexpectedText (take 20 (drop n rest)))
          else if \<not> expressing st then Inl ExpressionExpected
          else Inr (assign_props [(name, exp)] (st\<lparr>expressing := False\<rparr>))
      | Some str \<Rightarrow>
          if expressing st \<and> n = length rest then
            Inr (st\<lparr>propName := name,
                    propValue := append_expression exp (is_boolean exp \<or> is_nullish exp) str,
                    matcher := (if hd str = squote then CLOSING_SINGLE_QUOTE_RE
                                else CLOSING_DOUBLE_QUOTE_RE),
                    expressing := False\<rparr>)
          else Inr (assign_props [(name, VStr (formatString str))] st))"

text \<open>Lines 227 to 306: \<^verbatim>\<open>case PROPS_RE\<close>.\<close>

definition props_case ::
  "val \<Rightarrow> pstate \<Rightarrow> string \<Rightarrow> (nat \<times> nat \<times> props_groups) option \<Rightarrow> error + pstate \<times> nat"
where
  "props_case exp st rest m =
     (case m of
        Some (k, n, g) \<Rightarrow>
          if 0 < k then Inl (UnexpectedText (trim (take k rest)))
          else map_sum id (\<lambda>st'. (st', n))
            (case g of
               TagEnd tagEnd \<Rightarrow>
                 (case (if hd tagEnd = CHR ''/'' then pop st else Inr st) of
                    Inl e \<Rightarrow> Inl e
                  | Inr st1 \<Rightarrow>
                      (let st2 = st1\<lparr>matcher := CHILDREN_RE\<rparr>
                       in Inr (if expressing st2 \<and> n = length rest
                               then (push (ValueNode exp) st2)\<lparr>expressing := False\<rparr>
                               else st2)))
             | Spread \<Rightarrow>
                 if \<not> (expressing st \<and> n = length rest)
                 then Inl (MissingSpreadExpression (tag (current st)))
                 else Inr ((assign_props (own_entries exp) st)\<lparr>expressing := False\<rparr>)
             | Prop name equals string \<Rightarrow> prop_case exp st rest n name equals string)
      | None \<Rightarrow>
          if \<not> expressing st then Inl (UnexpectedText (trim (take 20 rest)))
          else Inr (st, length rest))"

text \<open>Lines 307 to 323: \<^verbatim>\<open>case CLOSING_TAG_RE\<close>.\<close>

definition closing_tag_case ::
  "pstate \<Rightarrow> string \<Rightarrow> (nat \<times> nat \<times> unit) option \<Rightarrow> error + pstate \<times> nat"
where
  "closing_tag_case st rest m =
     (case m of
        Some (k, n, u) \<Rightarrow>
          if 0 < k then Inl (UnexpectedText (trim (take k rest)))
          else Inr (st\<lparr>matcher := CHILDREN_RE\<rparr>, n)
      | None \<Rightarrow>
          if \<not> expressing st then Inl (UnexpectedText (trim (take 20 rest)))
          else Inr (st, length rest))"

text \<open>Lines 324 to 344: \<^verbatim>\<open>case CLOSING_SINGLE_QUOTE_RE\<close> and \<^verbatim>\<open>case CLOSING_DOUBLE_QUOTE_RE\<close>.\<close>

definition closing_quote_case ::
  "val \<Rightarrow> pstate \<Rightarrow> string \<Rightarrow> (nat \<times> nat \<times> unit) option \<Rightarrow> error + pstate \<times> nat"
where
  "closing_quote_case exp st rest m =
     (let endpos = (case m of Some (k, n, u) \<Rightarrow> k + n | None \<Rightarrow> length rest);
          st1 = (case m of
                   Some (k, n, u) \<Rightarrow>
                     st\<lparr>propValue := propValue st @ take endpos rest, matcher := PROPS_RE\<rparr>
                 | None \<Rightarrow> st\<lparr>propValue := propValue st @ rest\<rparr>);
          st2 = (if expressing st1 \<and> endpos = length rest
                 then st1\<lparr>propValue := append_expression exp (is_nullish exp) (propValue st1),
                          expressing := False\<rparr>
                 else st1)
      in Inr (assign_props [(propName st2, VStr (formatString (propValue st2)))] st2, endpos))"

text \<open>Lines 345 to 355: \<^verbatim>\<open>case CLOSING_COMMENT_RE\<close>.\<close>

definition closing_comment_case ::
  "pstate \<Rightarrow> string \<Rightarrow> (nat \<times> nat \<times> unit) option \<Rightarrow> error + pstate \<times> nat"
where
  "closing_comment_case st rest m =
     (case m of
        Some (k, n, u) \<Rightarrow> Inr (st\<lparr>matcher := CHILDREN_RE\<rparr>, k + n)
      | None \<Rightarrow>
          if \<not> expressing st then Inl MissingCommentTerminator
          else Inr (st\<lparr>expressing := False\<rparr>, length rest))"

text \<open>Lines 133 to 356: \<^verbatim>\<open>matcher.exec(span)\<close> and the \<^verbatim>\<open>switch (matcher)\<close>.\<close>

definition step :: "val \<Rightarrow> pstate \<Rightarrow> string \<Rightarrow> error + pstate \<times> nat" where
  "step exp st rest =
     (case matcher st of
        CHILDREN_RE \<Rightarrow> children_case exp st rest (exec children_re rest)
      | PROPS_RE \<Rightarrow> props_case exp st rest (exec props_re rest)
      | CLOSING_TAG_RE \<Rightarrow> closing_tag_case st rest (exec closing_tag_re rest)
      | CLOSING_SINGLE_QUOTE_RE \<Rightarrow>
          closing_quote_case exp st rest (exec (closing_quote_re squote) rest)
      | CLOSING_DOUBLE_QUOTE_RE \<Rightarrow>
          closing_quote_case exp st rest (exec (closing_quote_re dquote) rest)
      | CLOSING_COMMENT_RE \<Rightarrow> closing_comment_case st rest (exec closing_comment_re rest))"

section \<open>The loops\<close>

text \<open>
  The inner loop \<^verbatim>\<open>for (let i = 0, end = i; i < span.length; i = end)\<close> on
  \<^verbatim>\<open>span.slice(i)\<close>. It makes progress because every match is at least one character
  long, which is proved below.
\<close>

function scan :: "val \<Rightarrow> pstate \<Rightarrow> string \<Rightarrow> error + pstate" where
  "scan exp st [] = Inr st"
| "scan exp st (c # cs) =
     (case step exp st (c # cs) of
        Inl err \<Rightarrow> Inl err
      | Inr (st', e) \<Rightarrow> scan exp st' (drop e (c # cs)))"
  by pat_completeness auto


text \<open>Lines 111 to 130: the start of a span, where \<^verbatim>\<open>expressing\<close> says that an
  expression follows the span, and an empty span has its expression taken at once.\<close>

definition begin_span :: "val \<Rightarrow> bool \<Rightarrow> string \<Rightarrow> pstate \<Rightarrow> pstate" where
  "begin_span exp following span st =
     (let st0 = st\<lparr>expressing := following\<rparr>
      in if following \<and> span = [] then
           (case matcher st0 of
              CHILDREN_RE \<Rightarrow> (push (ValueNode exp) st0)\<lparr>expressing := False\<rparr>
            | CLOSING_SINGLE_QUOTE_RE \<Rightarrow>
                st0\<lparr>propValue := append_expression exp (is_boolean exp \<or> is_nullish exp)
                                   (propValue st0),
                    expressing := False\<rparr>
            | CLOSING_DOUBLE_QUOTE_RE \<Rightarrow>
                st0\<lparr>propValue := append_expression exp (is_boolean exp \<or> is_nullish exp)
                                   (propValue st0),
                    expressing := False\<rparr>
            | _ \<Rightarrow> st0)
         else st0)"

text \<open>\<^verbatim>\<open>expressions[s]\<close>, which is \<^verbatim>\<open>undefined\<close> beyond the end of the array.\<close>

definition expression_at :: "val list \<Rightarrow> val" where
  "expression_at exprs = (case exprs of [] \<Rightarrow> VUndefined | v # vs \<Rightarrow> v)"

text \<open>Lines 107 to 365: the loop over the spans; \<open>exprs\<close> holds the expressions from
  index \<^verbatim>\<open>s\<close> on.\<close>

fun spans_loop :: "pstate \<Rightarrow> string list \<Rightarrow> val list \<Rightarrow> error + pstate" where
  "spans_loop st [] exprs = Inr st"
| "spans_loop st (span # spans) exprs =
     (let exp = expression_at exprs
      in case scan exp (begin_span exp (spans \<noteq> []) span st) span of
           Inl err \<Rightarrow> Inl err
         | Inr st' \<Rightarrow>
             if expressing st' then Inl (UnexpectedExpression exp)
             else spans_loop st' spans (tl exprs))"

text \<open>Lines 89 to 374.\<close>

definition parse :: "string list \<Rightarrow> val list \<Rightarrow> error + ParseElement" where
  "parse spans expressions =
     (case spans_loop initial spans expressions of
        Inl err \<Rightarrow> Inl err
      | Inr st \<Rightarrow>
          if stack st \<noteq> [] then Inl (UnmatchedOpeningTag (tag (current st)))
          else Inr (current st))"

section \<open>The template tag\<close>

text \<open>
  Modelled from the spec: \<^verbatim>\<open>createElement\<close> of \<^verbatim>\<open>./crank.js\<close>, imported as \<^verbatim>\<open>c\<close>, which is
  not among the sources. It is the interface that accepts a tag, props and the children, each child
  an arbitrary value or a nested element; a call without props has none.
\<close>

datatype Element =
    Element val "record_props option" "Child list"
and Child =
    ElementChild Element
  | ValueChild val

definition createElement :: "val \<Rightarrow> record_props option \<Rightarrow> Child list \<Rightarrow> Element" where
  "createElement t p cs = Element t p cs"

text \<open>Lines 394 to 404.\<close>

fun createElementsFromParse :: "ParseElement \<Rightarrow> Element"
  and createChild :: "ParseNode \<Rightarrow> Child" where
  "createElementsFromParse (ParseElement t p cs) = createElement t p (map createChild cs)"
| "createChild (ElementNode e) = ElementChild (createElementsFromParse e)"
| "createChild (ValueNode v) = ValueChild v"

text \<open>Lines 8 to 22; \<open>spans\<close> is \<^verbatim>\<open>spans.raw\<close>.\<close>

definition template :: "string list \<Rightarrow> val list \<Rightarrow> error + Element" where
  "template spans expressions =
     (case parse spans expressions of
        Inl err \<Rightarrow> Inl err
      | Inr parsed \<Rightarrow>
          (case children parsed of
             [] \<Rightarrow> Inr (createElement (VStr []) None [])
           | [ElementNode e] \<Rightarrow> Inr (createElementsFromParse e)
           | _ \<Rightarrow> Inr (createElementsFromParse parsed)))"

section \<open>The states of a parse\<close>

text \<open>
  The states that the variables of \<^verbatim>\<open>parse\<close> go through: the initial one, the state at the
  start of a span, and the state after an iteration of the scanning loop that did not throw.
\<close>

inductive reachable :: "pstate \<Rightarrow> bool" where
  start: "reachable initial"
| span: "reachable st \<Longrightarrow> reachable (begin_span exp following span st)"
| iteration: "reachable st \<Longrightarrow> rest \<noteq> [] \<Longrightarrow> step exp st rest = Inr (st', e) \<Longrightarrow> reachable st'"

text \<open>While the scanner reads props or a quoted prop value, an element is open.\<close>

definition props_invariant :: "pstate \<Rightarrow> bool" where
  "props_invariant st \<longleftrightarrow>
     (matcher st \<in> {PROPS_RE, CLOSING_SINGLE_QUOTE_RE, CLOSING_DOUBLE_QUOTE_RE} \<longrightarrow> stack st \<noteq> [])"

text \<open>The outermost element, \<^verbatim>\<open>current\<close> or the bottom of the stack, is the root that
  \<^verbatim>\<open>parse\<close> starts with: it keeps the empty tag and has no props.\<close>

definition root_invariant :: "pstate \<Rightarrow> bool" where
  "root_invariant st \<longleftrightarrow>
     tag (last (current st # stack st)) = VStr [] \<and> props (last (current st # stack st)) = None"

section \<open>Termination of the scanning loop\<close>

lemma exec_positive:
  assumes "\<And>s n g. re s = Some (n, g) \<Longrightarrow> 0 < n"
  shows "exec re s = Some (k, n, g) \<Longrightarrow> 0 < n"
proof (induction s arbitrary: k)
  case Nil
  then show ?case using assms by (auto split: option.splits)
next
  case (Cons c cs)
  then show ?case using assms by (auto split: option.splits)
qed

lemma children_re_positive: "children_re s = Some (n, g) \<Longrightarrow> 0 < n"
  by (auto simp: children_re_def Let_def split: list.splits if_splits)

lemma tag_end_re_positive: "tag_end_re s = Some n \<Longrightarrow> 0 < n"
  by (auto simp: tag_end_re_def Let_def split: if_splits)

lemma props_re_positive: "props_re s = Some (n, g) \<Longrightarrow> 0 < n"
  by (auto simp: props_re_def Let_def split: option.splits if_splits dest: tag_end_re_positive)

lemma closing_tag_re_positive: "closing_tag_re s = Some (n, g) \<Longrightarrow> 0 < n"
  by (auto simp: closing_tag_re_def split: if_splits)

lemma closing_quote_re_positive: "closing_quote_re q s = Some (n, g) \<Longrightarrow> 0 < n"
  by (auto simp: closing_quote_re_def split: list.splits if_splits)

lemma closing_comment_re_positive: "closing_comment_re s = Some (n, g) \<Longrightarrow> 0 < n"
  by (auto simp: closing_comment_re_def split: if_splits)

lemma children_case_progress:
  assumes "children_case exp st rest (exec children_re rest) = Inr (st', e)" and "rest \<noteq> []"
  shows "0 < e"
proof (cases "exec children_re rest")
  case None
  with assms show ?thesis by (auto simp: children_case_def Let_def)
next
  case (Some m)
  obtain k n g where m: "m = (k, n, g)" by (cases m)
  have "0 < n" using exec_positive [of children_re rest k n g] children_re_positive Some m
    by blast
  with assms Some m show ?thesis
    by (auto simp: children_case_def Let_def map_sum_def split: sum.splits)
qed

lemma props_case_progress:
  assumes "props_case exp st rest (exec props_re rest) = Inr (st', e)" and "rest \<noteq> []"
  shows "0 < e"
proof (cases "exec props_re rest")
  case None
  with assms show ?thesis by (auto simp: props_case_def split: if_splits)
next
  case (Some m)
  obtain k n g where m: "m = (k, n, g)" by (cases m)
  have "0 < n" using exec_positive [of props_re rest k n g] props_re_positive Some m
    by blast
  with assms Some m show ?thesis
    by (auto simp: props_case_def map_sum_def split: sum.splits if_splits)
qed

lemma closing_tag_case_progress:
  assumes "closing_tag_case st rest (exec closing_tag_re rest) = Inr (st', e)" and "rest \<noteq> []"
  shows "0 < e"
proof (cases "exec closing_tag_re rest")
  case None
  with assms show ?thesis by (auto simp: closing_tag_case_def split: if_splits)
next
  case (Some m)
  obtain k n g where m: "m = (k, n, g)" by (cases m)
  have "0 < n" using exec_positive [of closing_tag_re rest k n g] closing_tag_re_positive Some m
    by blast
  with assms Some m show ?thesis
    by (auto simp: closing_tag_case_def split: if_splits)
qed

lemma closing_quote_case_progress:
  assumes "closing_quote_case exp st rest (exec (closing_quote_re q) rest) = Inr (st', e)"
    and "rest \<noteq> []"
  shows "0 < e"
proof (cases "exec (closing_quote_re q) rest")
  case None
  with assms show ?thesis by (auto simp: closing_quote_case_def Let_def)
next
  case (Some m)
  obtain k n g where m: "m = (k, n, g)" by (cases m)
  have "0 < n"
    using exec_positive [of "closing_quote_re q" rest k n g] closing_quote_re_positive Some m
    by blast
  with assms Some m show ?thesis
    by (auto simp: closing_quote_case_def Let_def)
qed

lemma closing_comment_case_progress:
  assumes "closing_comment_case st rest (exec closing_comment_re rest) = Inr (st', e)"
    and "rest \<noteq> []"
  shows "0 < e"
proof (cases "exec closing_comment_re rest")
  case None
  with assms show ?thesis by (auto simp: closing_comment_case_def split: if_splits)
next
  case (Some m)
  obtain k n g where m: "m = (k, n, g)" by (cases m)
  have "0 < n"
    using exec_positive [of closing_comment_re rest k n g] closing_comment_re_positive Some m
    by blast
  with assms Some m show ?thesis
    by (auto simp: closing_comment_case_def)
qed

lemma step_progress: "step exp st rest = Inr (st', e) \<Longrightarrow> rest \<noteq> [] \<Longrightarrow> 0 < e"
  unfolding step_def
  by (cases "matcher st")
     (auto dest: children_case_progress props_case_progress closing_tag_case_progress
        closing_quote_case_progress closing_comment_case_progress)

termination scan
proof (relation "measure (\<lambda>(exp, st, rest). length rest)")
  show "wf (measure (\<lambda>(exp, st, rest). length rest))" by simp
next
  fix exp st c cs x st' e
  assume "step exp st (c # cs) = Inr x" and "(st', e) = x"
  then have "0 < e" using step_progress [of exp st "c # cs" st' e] by simp
  then show "((exp, st', drop e (c # cs)), exp, st, c # cs)
               \<in> measure (\<lambda>(exp, st, rest). length rest)"
    by simp
qed

section \<open>Field lemmas\<close>

lemma push_fields [simp]:
  "stack (push n st) = stack st" "matcher (push n st) = matcher st"
  "expressing (push n st) = expressing st" "lineStart (push n st) = lineStart st"
  "propName (push n st) = propName st" "propValue (push n st) = propValue st"
  by (simp_all add: push_def)

lemma assign_props_fields [simp]:
  "stack (assign_props s st) = stack st" "matcher (assign_props s st) = matcher st"
  "expressing (assign_props s st) = expressing st" "lineStart (assign_props s st) = lineStart st"
  "propName (assign_props s st) = propName st" "propValue (assign_props s st) = propValue st"
  by (simp_all add: assign_props_def)

lemma open_element_fields [simp]:
  "stack (open_element t st) = current st # stack st" "matcher (open_element t st) = matcher st"
  "expressing (open_element t st) = expressing st"
  "current (open_element t st) = ParseElement t None []"
  by (simp_all add: open_element_def)

lemma pop_Inr:
  "pop st = Inr st' \<Longrightarrow> matcher st' = matcher st \<and> expressing st' = expressing st \<and> stack st = hd (stack st) # stack st'
     \<and> current st' = push_child (hd (stack st)) (ElementNode (current st))"
  by (auto simp: pop_def split: list.splits)

lemma pop_Inl: "pop st = Inl e \<Longrightarrow> stack st = [] \<and> e = StackUnderflow"
  by (auto simp: pop_def split: list.splits)

lemma child_expression_fields [simp]:
  "stack (child_expression exp b st) = stack st" "matcher (child_expression exp b st) = matcher st"
  by (simp_all add: child_expression_def)

section \<open>The stack is not empty while props are read\<close>

lemma inv_initial: "props_invariant initial"
  by (simp add: props_invariant_def initial_def)

lemma inv_begin_span: "props_invariant st \<Longrightarrow> props_invariant (begin_span exp f span st)"
  by (cases "matcher st") (auto simp: props_invariant_def begin_span_def Let_def)

lemma tag_case_inv:
  "tag_case exp b slash name st = Inr st' \<Longrightarrow> props_invariant st'"
  by (auto simp: tag_case_def Let_def props_invariant_def map_sum_def split: if_splits sum.splits dest!: pop_Inr)

lemma tag_case_no_underflow: "tag_case exp b slash name st \<noteq> Inl StackUnderflow"
  by (auto simp: tag_case_def Let_def map_sum_def split: if_splits sum.splits dest!: pop_Inl)

lemma children_case_inv:
  "matcher st = CHILDREN_RE \<Longrightarrow> children_case exp st rest m = Inr (st', e) \<Longrightarrow> props_invariant st'"
  apply (cases m)
   apply (auto simp: children_case_def Let_def props_invariant_def split: if_splits)[1]
  apply (clarsimp simp: children_case_def Let_def map_sum_def split: sum.splits children_groups.splits if_splits)
  apply (auto simp: props_invariant_def dest!: tag_case_inv)
  done

lemma children_case_no_underflow: "children_case exp st rest m \<noteq> Inl StackUnderflow"
  apply (cases m)
  apply (auto simp: children_case_def Let_def map_sum_def split: sum.splits children_groups.splits if_splits)
  apply (auto simp: tag_case_no_underflow)
  done


lemma prop_case_inv:
  "props_invariant st \<Longrightarrow> matcher st = PROPS_RE \<Longrightarrow>
   prop_case exp st rest n name equals string = Inr st' \<Longrightarrow> props_invariant st'"
  by (auto simp: prop_case_def props_invariant_def split: option.splits if_splits)

lemma props_case_inv:
  "props_invariant st \<Longrightarrow> matcher st = PROPS_RE \<Longrightarrow>
   props_case exp st rest m = Inr (st', e) \<Longrightarrow> props_invariant st'"
  apply (cases m)
   apply (auto simp: props_case_def split: if_splits)[1]
  apply (auto simp: props_case_def map_sum_def Let_def props_invariant_def prop_case_def
      split: sum.splits props_groups.splits if_splits option.splits dest!: pop_Inr)
  done

lemma props_case_no_underflow:
  "props_invariant st \<Longrightarrow> matcher st = PROPS_RE \<Longrightarrow> props_case exp st rest m \<noteq> Inl StackUnderflow"
  apply (cases m)
   apply (auto simp: props_case_def split: if_splits)[1]
  apply (auto simp: props_case_def map_sum_def prop_case_def props_invariant_def Let_def
      split: sum.splits props_groups.splits if_splits option.splits dest!: pop_Inl)
  done

lemma closing_tag_case_inv:
  "matcher st = CLOSING_TAG_RE \<Longrightarrow> closing_tag_case st rest m = Inr (st', e) \<Longrightarrow> props_invariant st'"
  by (cases m) (auto simp: closing_tag_case_def props_invariant_def split: if_splits)

lemma closing_quote_case_inv:
  "props_invariant st \<Longrightarrow> matcher st \<in> {CLOSING_SINGLE_QUOTE_RE, CLOSING_DOUBLE_QUOTE_RE} \<Longrightarrow>
   closing_quote_case exp st rest m = Inr (st', e) \<Longrightarrow> props_invariant st'"
  by (cases m) (auto simp: closing_quote_case_def props_invariant_def Let_def split: if_splits)

lemma closing_comment_case_inv:
  "matcher st = CLOSING_COMMENT_RE \<Longrightarrow> closing_comment_case st rest m = Inr (st', e) \<Longrightarrow> props_invariant st'"
  by (cases m) (auto simp: closing_comment_case_def props_invariant_def split: if_splits)

lemma step_inv: "props_invariant st \<Longrightarrow> step exp st rest = Inr (st', e) \<Longrightarrow> props_invariant st'"
  unfolding step_def
  by (cases "matcher st")
     (auto dest: children_case_inv props_case_inv closing_tag_case_inv closing_quote_case_inv
        closing_comment_case_inv)

lemma step_no_underflow: "props_invariant st \<Longrightarrow> step exp st rest \<noteq> Inl StackUnderflow"
  unfolding step_def
  by (cases "matcher st")
     (auto simp: children_case_no_underflow props_case_no_underflow closing_tag_case_def
        closing_quote_case_def closing_comment_case_def Let_def split: option.splits)

lemma scan_inv:
  "props_invariant st \<Longrightarrow>
   scan exp st rest \<noteq> Inl StackUnderflow \<and> (\<forall>st'. scan exp st rest = Inr st' \<longrightarrow> props_invariant st')"
proof (induction exp st rest rule: scan.induct)
  case (1 exp st)
  then show ?case by simp
next
  case (2 exp st c cs)
  show ?case
  proof (cases "step exp st (c # cs)")
    case (Inl err)
    with 2 step_no_underflow [of st exp "c # cs"] show ?thesis by simp
  next
    case (Inr p)
    obtain st' e where p: "p = (st', e)" by (cases p)
    have "props_invariant st'" using step_inv [of st exp "c # cs" st' e] 2 Inr p by simp
    with 2 Inr p show ?thesis by simp
  qed
qed

lemma spans_loop_inv:
  "props_invariant st \<Longrightarrow>
   spans_loop st spans exprs \<noteq> Inl StackUnderflow \<and>
   (\<forall>st'. spans_loop st spans exprs = Inr st' \<longrightarrow> props_invariant st')"
proof (induction spans arbitrary: st exprs)
  case Nil
  then show ?case by simp
next
  case (Cons span spans)
  let ?exp = "expression_at exprs"
  let ?st0 = "begin_span ?exp (spans \<noteq> []) span st"
  have inv0: "props_invariant ?st0" using Cons.prems by (rule inv_begin_span)
  show ?case
  proof (cases "scan ?exp ?st0 span")
    case (Inl err)
    then show ?thesis using scan_inv [OF inv0, of ?exp span] by (simp add: Let_def)
  next
    case (Inr st1)
    then have "props_invariant st1" using scan_inv [OF inv0, of ?exp span] by simp
    then show ?thesis using Inr Cons.IH [of st1 "tl exprs"] by (simp add: Let_def)
  qed
qed

lemma reachable_inv: "reachable st \<Longrightarrow> props_invariant st"
  by (induction rule: reachable.induct) (auto intro: inv_initial inv_begin_span step_inv)

text \<open>
  C10: whenever the scanner is in Props mode the element stack is not empty, so that the
  unguarded \<^verbatim>\<open>stack.pop()!\<close> of a self-closing tag never runs on an empty stack: no
  iteration from a state of a parse, and no parse, ends in \<open>StackUnderflow\<close>.
\<close>

theorem props_mode_stack_nonempty:
  "(reachable st \<longrightarrow> matcher st = PROPS_RE \<longrightarrow>
      stack st \<noteq> [] \<and> step exp st rest \<noteq> Inl StackUnderflow)
   \<and> spans_loop initial spans expressions \<noteq> Inl StackUnderflow
   \<and> parse spans expressions \<noteq> Inl StackUnderflow"
proof -
  have a: "spans_loop initial spans expressions \<noteq> Inl StackUnderflow"
    using spans_loop_inv [OF inv_initial] by simp
  have b: "parse spans expressions \<noteq> Inl StackUnderflow"
    using a by (auto simp: parse_def split: sum.splits)
  have c: "reachable st \<Longrightarrow> matcher st = PROPS_RE \<Longrightarrow> stack st \<noteq> []"
    using reachable_inv [of st] by (simp add: props_invariant_def)
  have d: "reachable st \<Longrightarrow> step exp st rest \<noteq> Inl StackUnderflow"
    using reachable_inv [of st] by (rule step_no_underflow)
  from a b c d show ?thesis by blast
qed

theorem props_mode_stack_nonempty_witness:
  "step VUndefined initial ''<p'' =
     Inr (\<lparr>current = ParseElement (VStr ''p'') None [],
           stack = [ParseElement (VStr []) None []], matcher = PROPS_RE, lineStart = False,
           propName = [], propValue = [], expressing = False\<rparr>, 2)
   \<and> stack \<lparr>current = ParseElement (VStr ''p'') None [],
           stack = [ParseElement (VStr []) None []], matcher = PROPS_RE, lineStart = False,
           propName = [], propValue = [], expressing = False\<rparr> \<noteq> []
   \<and> step VUndefined \<lparr>current = ParseElement (VStr ''p'') None [],
           stack = [ParseElement (VStr []) None []], matcher = PROPS_RE, lineStart = False,
           propName = [], propValue = [], expressing = False\<rparr> ''/>'' \<noteq> Inl StackUnderflow"
proof -
  let ?X = "\<lparr>current = ParseElement (VStr ''p'') None [],
           stack = [ParseElement (VStr []) None []], matcher = PROPS_RE, lineStart = False,
           propName = [], propValue = [], expressing = False\<rparr>"
  have s: "step VUndefined initial ''<p'' = Inr (?X, 2)"
    by code_simp
  have r: "reachable ?X"
    by (rule reachable.iteration [OF reachable.start _ s]) simp
  have m: "matcher ?X = PROPS_RE" by simp
  from props_mode_stack_nonempty [of ?X VUndefined "''/>''" "[]" "[]"] r m s
  show ?thesis by blast
qed

lemma push_child_fields [simp]:
  "tag (push_child e n) = tag e" "props (push_child e n) = props e"
  "children (push_child e n) = children e @ [n]"
  by (simp_all add: push_child_def)

lemma current_push [simp]: "current (push n st) = push_child (current st) n"
  by (simp add: push_def)

section \<open>Closing tags\<close>

text \<open>
  The tag of a closing marker is not always the captured identifier: when the marker ends a
  span that an expression follows, the expression is the tag (lines 173 to 177). In
  \<^verbatim>\<open><a></b${"a"}>\<close> the captured \<^verbatim>\<open>b\<close> differs from the open \<^verbatim>\<open>a\<close> and nothing is thrown, and in
  \<^verbatim>\<open><a></a${"b"}>\<close> the captured \<^verbatim>\<open>a\<close> equals the open \<^verbatim>\<open>a\<close> and "Mismatched closing tag" is
  thrown.
\<close>

theorem closing_tag_expression_counterexample:
  "parse [''<a></b'', ''>''] [VStr ''a''] =
     Inr (ParseElement (VStr []) None [ElementNode (ParseElement (VStr ''a'') None [])])
   \<and> parse [''<a></a'', ''>''] [VStr ''b''] =
     Inl (MismatchedClosingTag (VStr ''b'') (VStr ''a''))"
  by code_simp

text \<open>
  C1, as the code has it: in Children mode, at a tag marker with a closing slash (the match
  of \<^verbatim>\<open>CHILDREN_RE\<close> has group 4 set), the tag \<open>t\<close> of the marker is the expression that follows
  it when the marker ends the span and an expression is pending, and the captured
  identifier otherwise. With an empty stack the iteration throws "Unmatched closing tag";
  with a single slash and \<open>t\<close> different from the tag of the current element it throws
  "Mismatched closing tag"; with a double slash, or with \<open>t\<close> equal to the tag of the current
  element, it closes the current element. And a parse whose loop ends with elements on the
  stack throws "Unmatched opening tag".
\<close>

theorem closing_tag_errors:
  "(matcher st = CHILDREN_RE \<and> exec children_re rest = Some (k, n, Tag slash tagName)
      \<and> slash \<noteq> [] \<and> t = (if expressing st \<and> k + n = length rest then exp else VStr tagName)
    \<longrightarrow> (stack st = [] \<longrightarrow> step exp st rest = Inl (UnmatchedClosingTag t))
      \<and> (stack st \<noteq> [] \<and> slash = ''/'' \<and> tag (current st) \<noteq> t
            \<longrightarrow> step exp st rest = Inl (MismatchedClosingTag t (tag (current st))))
      \<and> (stack st \<noteq> [] \<and> (slash = ''//'' \<or> tag (current st) = t)
            \<longrightarrow> (\<exists>st'. step exp st rest = Inr (st', k + n)
                   \<and> stack st' = tl (stack st) \<and> matcher st' = CLOSING_TAG_RE
                   \<and> current st' =
                       push_child (hd (stack st))
                         (ElementNode
                           (if 0 < k \<and> text_before (lineStart st) False (take k rest) \<noteq> []
                            then push_child (current st)
                                   (ValueNode (VStr (text_before (lineStart st) False (take k rest))))
                            else current st)))))
   \<and> (spans_loop initial spans expressions = Inr st' \<and> stack st' \<noteq> []
        \<longrightarrow> parse spans expressions = Inl (UnmatchedOpeningTag (tag (current st'))))"
proof -
  have d: "spans_loop initial spans expressions = Inr st' \<and> stack st' \<noteq> []
        \<longrightarrow> parse spans expressions = Inl (UnmatchedOpeningTag (tag (current st')))"
    by (simp add: parse_def)
  {
    assume m: "matcher st = CHILDREN_RE"
      and e: "exec children_re rest = Some (k, n, Tag slash tagName)"
      and s: "slash \<noteq> []"
      and t: "t = (if expressing st \<and> k + n = length rest then exp else VStr tagName)"
    have a: "stack st = [] \<Longrightarrow> step exp st rest = Inl (UnmatchedClosingTag t)"
      using m e s t by (simp add: step_def children_case_def tag_case_def Let_def)
    have b: "stack st \<noteq> [] \<Longrightarrow> slash = ''/'' \<Longrightarrow> tag (current st) \<noteq> t \<Longrightarrow>
             step exp st rest = Inl (MismatchedClosingTag t (tag (current st)))"
      using m e s t
      by (auto simp: step_def children_case_def tag_case_def Let_def split: if_splits)
    have c: "\<exists>st'. step exp st rest = Inr (st', k + n)
                   \<and> stack st' = tl (stack st) \<and> matcher st' = CLOSING_TAG_RE
                   \<and> current st' =
                       push_child (hd (stack st))
                         (ElementNode
                           (if 0 < k \<and> text_before (lineStart st) False (take k rest) \<noteq> []
                            then push_child (current st)
                                   (ValueNode (VStr (text_before (lineStart st) False (take k rest))))
                            else current st))"
      if ne: "stack st \<noteq> []" and sl: "slash = ''//'' \<or> tag (current st) = t"
    proof -
      obtain parent ps where st: "stack st = parent # ps" using ne by (cases "stack st") auto
      show ?thesis
        using m e s sl t st
        by (auto simp: step_def children_case_def tag_case_def Let_def pop_def child_expression_def
            split: if_splits)
    qed
    note a b c
  }
  with d show ?thesis by blast
qed

theorem closing_tag_errors_witness:
  "step VUndefined initial ''</a>'' = Inl (UnmatchedClosingTag (VStr ''a''))
   \<and> step VUndefined
        \<lparr>current = ParseElement (VStr ''a'') None [], stack = [ParseElement (VStr []) None []],
           matcher = CHILDREN_RE, lineStart = False, propName = [], propValue = [],
           expressing = False\<rparr> ''</b>''
       = Inl (MismatchedClosingTag (VStr ''b'') (VStr ''a''))
   \<and> step (VStr ''b'')
        \<lparr>current = ParseElement (VStr ''a'') None [], stack = [ParseElement (VStr []) None []],
           matcher = CHILDREN_RE, lineStart = False, propName = [], propValue = [],
           expressing = True\<rparr> ''</a''
       = Inl (MismatchedClosingTag (VStr ''b'') (VStr ''a''))
   \<and> (\<exists>st'. step (VStr ''a'')
        \<lparr>current = ParseElement (VStr ''a'') None [], stack = [ParseElement (VStr []) None []],
           matcher = CHILDREN_RE, lineStart = False, propName = [], propValue = [],
           expressing = True\<rparr> ''</b'' = Inr (st', 3)
        \<and> stack st' = [] \<and> matcher st' = CLOSING_TAG_RE
        \<and> current st' =
            ParseElement (VStr []) None [ElementNode (ParseElement (VStr ''a'') None [])])
   \<and> (\<exists>st'. step VUndefined
        \<lparr>current = ParseElement (VStr ''a'') None [], stack = [ParseElement (VStr []) None []],
           matcher = CHILDREN_RE, lineStart = False, propName = [], propValue = [],
           expressing = False\<rparr> ''<//>'' = Inr (st', 3)
        \<and> stack st' = [] \<and> matcher st' = CLOSING_TAG_RE
        \<and> current st' =
            ParseElement (VStr []) None [ElementNode (ParseElement (VStr ''a'') None [])])
   \<and> parse [''<a>''] [] = Inl (UnmatchedOpeningTag (VStr ''a''))
   \<and> parse [''<a></b>''] [] = Inl (MismatchedClosingTag (VStr ''b'') (VStr ''a''))
   \<and> parse [''</a>''] [] = Inl (UnmatchedClosingTag (VStr ''a''))
   \<and> parse [''<a><//>''] [] =
       Inr (ParseElement (VStr []) None [ElementNode (ParseElement (VStr ''a'') None [])])"
proof -
  let ?X = "\<lambda>b. \<lparr>current = ParseElement (VStr ''a'') None [], stack = [ParseElement (VStr []) None []],
           matcher = CHILDREN_RE, lineStart = False, propName = [], propValue = [],
           expressing = b\<rparr>"
  have e1: "exec children_re ''</a>'' = Some (0, 3, Tag ''/'' ''a'')" by code_simp
  have e2: "exec children_re ''</b>'' = Some (0, 3, Tag ''/'' ''b'')" by code_simp
  have e3: "exec children_re ''<//>'' = Some (0, 3, Tag ''//'' [])" by code_simp
  have e4: "exec children_re ''</a'' = Some (0, 3, Tag ''/'' ''a'')" by code_simp
  have e5: "exec children_re ''</b'' = Some (0, 3, Tag ''/'' ''b'')" by code_simp
  have l: "spans_loop initial [''<a>''] [] = Inr (?X False)" by code_simp
  have i: "matcher initial = CHILDREN_RE" "stack initial = []" "\<not> expressing initial"
    by (simp_all add: initial_def)
  have a: "step VUndefined initial ''</a>'' = Inl (UnmatchedClosingTag (VStr ''a''))"
    using closing_tag_errors [of initial "''</a>''" 0 3 "''/''" "''a''" "VStr ''a''" VUndefined] e1 i
    by (simp del: exec.simps)
  have b: "step VUndefined (?X False) ''</b>'' =
             Inl (MismatchedClosingTag (VStr ''b'') (VStr ''a''))"
    using closing_tag_errors [of "?X False" "''</b>''" 0 3 "''/''" "''b''" "VStr ''b''" VUndefined]
      e2
    by (simp del: exec.simps)
  have b': "step (VStr ''b'') (?X True) ''</a'' =
             Inl (MismatchedClosingTag (VStr ''b'') (VStr ''a''))"
    using closing_tag_errors [of "?X True" "''</a''" 0 3 "''/''" "''a''" "VStr ''b''" "VStr ''b''"]
      e4
    by (simp del: exec.simps)
  have c': "\<exists>st'. step (VStr ''a'') (?X True) ''</b'' = Inr (st', 3)
        \<and> stack st' = [] \<and> matcher st' = CLOSING_TAG_RE
        \<and> current st' =
            ParseElement (VStr []) None [ElementNode (ParseElement (VStr ''a'') None [])]"
    using closing_tag_errors [of "?X True" "''</b''" 0 3 "''/''" "''b''" "VStr ''a''" "VStr ''a''"]
      e5
    by (simp add: push_child_def del: exec.simps)
  have c: "\<exists>st'. step VUndefined (?X False) ''<//>'' = Inr (st', 3)
        \<and> stack st' = [] \<and> matcher st' = CLOSING_TAG_RE
        \<and> current st' =
            ParseElement (VStr []) None [ElementNode (ParseElement (VStr ''a'') None [])]"
    using closing_tag_errors [of "?X False" "''<//>''" 0 3 "''//''" "[]" "VStr []" VUndefined] e3
    by (simp add: push_child_def del: exec.simps)
  have d: "parse [''<a>''] [] = Inl (UnmatchedOpeningTag (VStr ''a''))"
    using closing_tag_errors [of _ _ _ _ _ _ _ _ "[''<a>'']" "[]" "?X False"] l
    by simp
  have e: "parse [''<a></b>''] [] = Inl (MismatchedClosingTag (VStr ''b'') (VStr ''a''))"
    by code_simp
  have f: "parse [''</a>''] [] = Inl (UnmatchedClosingTag (VStr ''a''))"
    by code_simp
  have g: "parse [''<a><//>''] [] =
       Inr (ParseElement (VStr []) None [ElementNode (ParseElement (VStr ''a'') None [])])"
    by code_simp
  from a b b' c' c d e f g show ?thesis by blast
qed

section \<open>Spread props\<close>

lemma map_of_assign: "map_of (assign target source) = map_of target ++ map_of (rev source)"
proof (induction source arbitrary: target)
  case Nil
  then show ?case by (simp add: assign_def)
next
  case (Cons p source)
  obtain k v where p: "p = (k, v)" by (cases p)
  have "map_of (assign target (p # source)) = map_of (assign (AList.update k v target) source)"
    by (simp add: assign_def p)
  also have "\<dots> = map_of (AList.update k v target) ++ map_of (rev source)"
    by (rule Cons.IH)
  also have "\<dots> = map_of target ++ map_of (rev (p # source))"
    by (simp add: update_conv' p map_add_upd_left)
  finally show ?case .
qed

text \<open>
  C5: in Props mode, at a spread marker (the match of \<^verbatim>\<open>PROPS_RE\<close> at the scanning
  position has group 2 set): unless an expression is pending and the marker ends the span,
  the iteration throws "Missing expression after ..."; otherwise the own properties of the
  expression are merged into the props of the current element, where a later pair overwrites
  an earlier one of the same key, and the expression is consumed.
\<close>

theorem spread_marker:
  "matcher st = PROPS_RE \<and> exec props_re rest = Some (0, n, Spread) \<longrightarrow>
     (\<not> (expressing st \<and> n = length rest)
        \<longrightarrow> step exp st rest = Inl (MissingSpreadExpression (tag (current st))))
     \<and> (expressing st \<and> n = length rest
        \<longrightarrow> (\<exists>ps. step exp st rest =
                  Inr (st\<lparr>current := ParseElement (tag (current st)) (Some ps)
                                        (children (current st)),
                         expressing := False\<rparr>, n)
               \<and> map_of ps =
                   map_of (case props (current st) of None \<Rightarrow> [] | Some old \<Rightarrow> old)
                   ++ map_of (rev (own_entries exp))))"
  by (auto simp: step_def props_case_def assign_props_def set_props_def spread_props_def
      map_of_assign)


theorem spread_marker_witness:
  "step (VObject 0 [(''a'', VNum 3), (''d'', VNull)])
      \<lparr>current = ParseElement (VStr ''p'') (Some [(''a'', VBool True), (''b'', VStr ''1'')]) [],
         stack = [ParseElement (VStr []) None []], matcher = PROPS_RE, lineStart = False,
         propName = [], propValue = [], expressing = False\<rparr> ''...''
     = Inl (MissingSpreadExpression (VStr ''p''))
   \<and> (\<exists>ps. step (VObject 0 [(''a'', VNum 3), (''d'', VNull)])
      \<lparr>current = ParseElement (VStr ''p'') (Some [(''a'', VBool True), (''b'', VStr ''1'')]) [],
         stack = [ParseElement (VStr []) None []], matcher = PROPS_RE, lineStart = False,
         propName = [], propValue = [], expressing = True\<rparr> ''...''
     = Inr (\<lparr>current = ParseElement (VStr ''p'') (Some ps) [],
              stack = [ParseElement (VStr []) None []], matcher = PROPS_RE, lineStart = False,
              propName = [], propValue = [], expressing = False\<rparr>, 3)
     \<and> map_of ps ''a'' = Some (VNum 3) \<and> map_of ps ''b'' = Some (VStr ''1'')
     \<and> map_of ps ''d'' = Some VNull)"
proof -
  let ?e = "VObject 0 [(''a'', VNum 3), (''d'', VNull)]"
  let ?X = "\<lambda>b. \<lparr>current = ParseElement (VStr ''p'') (Some [(''a'', VBool True), (''b'', VStr ''1'')]) [],
         stack = [ParseElement (VStr []) None []], matcher = PROPS_RE, lineStart = False,
         propName = [], propValue = [], expressing = b\<rparr>"
  have e: "exec props_re ''...'' = Some (0, 3, Spread)" by code_simp
  have a: "step ?e (?X False) ''...'' = Inl (MissingSpreadExpression (VStr ''p''))"
    using spread_marker [of "?X False" "''...''" 3 ?e] e by (simp del: exec.simps)
  have b: "\<exists>ps. step ?e (?X True) ''...''
     = Inr (\<lparr>current = ParseElement (VStr ''p'') (Some ps) [],
              stack = [ParseElement (VStr []) None []], matcher = PROPS_RE, lineStart = False,
              propName = [], propValue = [], expressing = False\<rparr>, 3)
     \<and> map_of ps ''a'' = Some (VNum 3) \<and> map_of ps ''b'' = Some (VStr ''1'')
     \<and> map_of ps ''d'' = Some VNull"
    using spread_marker [of "?X True" "''...''" 3 ?e] e
    by (auto simp del: exec.simps simp: map_add_def)
  from a b show ?thesis by blast
qed

section \<open>Self-closing elements\<close>

lemma ident_not_space: "is_ident c \<Longrightarrow> \<not> is_space c"
  by (auto simp: is_ident_def is_space_def)

lemma ident_not_slash: "is_ident c \<Longrightarrow> c \<noteq> CHR ''/''"
  by (auto simp: is_ident_def)

lemma ident_not_bang: "is_ident c \<Longrightarrow> c \<noteq> CHR ''!''"
  by (auto simp: is_ident_def)

lemma slash_not_ident: "\<not> is_ident (CHR ''/'')"
  by (simp add: is_ident_def)

lemma children_re_open:
  assumes "x \<noteq> []" and "\<forall>c\<in>set x. is_ident c"
  shows "children_re (CHR ''<'' # x @ ''/>'') = Some (1 + length x, Tag [] x)"
proof -
  obtain a y where x: "x = a # y" using assms(1) by (cases x) auto
  have a: "is_ident a" using assms(2) x by simp
  have tw: "takeWhile is_ident (x @ ''/>'') = x"
    using assms(2) by (simp add: takeWhile_append2 slash_not_ident)
  show ?thesis
    using a tw ident_not_space [OF a] ident_not_slash [OF a] ident_not_bang [OF a]
    by (simp add: children_re_def x CR_def LF_def Let_def)
qed

lemma self_closing_parse:
  assumes "x \<noteq> []" and "\<forall>c\<in>set x. is_ident c"
  shows "spans_loop initial [CHR ''<'' # x @ ''/>''] [] =
          Inr (initial\<lparr>current := ParseElement (VStr []) None [ElementNode (ParseElement (VStr x) None [])],
                 lineStart := False\<rparr>)"
proof -
  let ?st1 = "initial\<lparr>lineStart := False, stack := [current initial],
                 current := ParseElement (VStr x) None [], matcher := PROPS_RE\<rparr>"
  have s1: "step VUndefined initial (CHR ''<'' # x @ ''/>'') = Inr (?st1, 1 + length x)"
    using children_re_open [OF assms]
    by (simp add: step_def initial_def children_case_def tag_case_def Let_def open_element_def
        child_expression_def)
  have p: "exec props_re ''/>'' = Some (0, 2, TagEnd ''/>'')"
    by code_simp
  have s2: "step VUndefined ?st1 ''/>'' =
     Inr (initial\<lparr>current := ParseElement (VStr []) None [ElementNode (ParseElement (VStr x) None [])],
                 lineStart := False\<rparr>, 2)"
    using p by (simp add: step_def initial_def props_case_def pop_def Let_def push_child_def)
  show ?thesis
    using s1 s2 by (simp add: begin_span_def expression_at_def initial_def)
qed

text \<open>
  C2: for every identifier \<open>x\<close>, the input \<^verbatim>\<open><x/>\<close> parses to the root with one child, the
  element with tag \<open>x\<close>, props \<^verbatim>\<open>null\<close> and no children; the scan ends in Children mode
  with an empty stack. In Props mode the terminator \<^verbatim>\<open>/>\<close> pops the stack and sets the
  matcher to \<^verbatim>\<open>CHILDREN_RE\<close> (an expression pending at the end of the span becomes a child
  of the parent).
\<close>

theorem self_closing_element:
  "(x \<noteq> [] \<and> (\<forall>ch\<in>set x. is_ident ch) \<longrightarrow>
      spans_loop initial [CHR ''<'' # x @ ''/>''] [] =
        Inr (initial\<lparr>current := ParseElement (VStr []) None
                                     [ElementNode (ParseElement (VStr x) None [])],
               lineStart := False\<rparr>)
      \<and> parse [CHR ''<'' # x @ ''/>''] [] =
        Inr (ParseElement (VStr []) None [ElementNode (ParseElement (VStr x) None [])])
      \<and> template [CHR ''<'' # x @ ''/>''] [] = Inr (createElement (VStr x) None []))
   \<and> (matcher st = PROPS_RE \<and> exec props_re rest = Some (0, n, TagEnd tagEnd)
        \<and> hd tagEnd = CHR ''/'' \<and> stack st = parent # ps \<longrightarrow>
        step exp st rest =
          Inr (let st1 = st\<lparr>current := push_child parent (ElementNode (current st)),
                            stack := ps, matcher := CHILDREN_RE\<rparr>
               in if expressing st \<and> n = length rest
                  then (push (ValueNode exp) st1)\<lparr>expressing := False\<rparr>
                  else st1, n))"
proof -
  have a: "spans_loop initial [CHR ''<'' # x @ ''/>''] [] =
        Inr (initial\<lparr>current := ParseElement (VStr []) None
                                     [ElementNode (ParseElement (VStr x) None [])],
               lineStart := False\<rparr>)"
    if "x \<noteq> []" and "\<forall>ch\<in>set x. is_ident ch"
    using that by (rule self_closing_parse)
  have b: "parse [CHR ''<'' # x @ ''/>''] [] =
        Inr (ParseElement (VStr []) None [ElementNode (ParseElement (VStr x) None [])])"
    if "x \<noteq> []" and "\<forall>ch\<in>set x. is_ident ch"
    using a [OF that] by (simp add: parse_def initial_def)
  have c: "template [CHR ''<'' # x @ ''/>''] [] = Inr (createElement (VStr x) None [])"
    if "x \<noteq> []" and "\<forall>ch\<in>set x. is_ident ch"
    using b [OF that] by (simp add: template_def)
  have d: "step exp st rest =
          Inr (let st1 = st\<lparr>current := push_child parent (ElementNode (current st)),
                            stack := ps, matcher := CHILDREN_RE\<rparr>
               in if expressing st \<and> n = length rest
                  then (push (ValueNode exp) st1)\<lparr>expressing := False\<rparr>
                  else st1, n)"
    if "matcher st = PROPS_RE" and "exec props_re rest = Some (0, n, TagEnd tagEnd)"
      and "hd tagEnd = CHR ''/''" and "stack st = parent # ps"
    using that by (simp add: step_def props_case_def pop_def Let_def)
  from a b c d show ?thesis by blast
qed

theorem self_closing_element_witness:
  "parse [''<x/>''] [] =
     Inr (ParseElement (VStr []) None [ElementNode (ParseElement (VStr ''x'') None [])])
   \<and> template [''<x/>''] [] = Inr (createElement (VStr ''x'') None [])
   \<and> step VUndefined
        \<lparr>current = ParseElement (VStr ''x'') None [], stack = [ParseElement (VStr []) None []],
           matcher = PROPS_RE, lineStart = False, propName = [], propValue = [],
           expressing = False\<rparr> ''/>''
       = Inr (\<lparr>current = ParseElement (VStr []) None
                            [ElementNode (ParseElement (VStr ''x'') None [])],
                stack = [], matcher = CHILDREN_RE, lineStart = False, propName = [],
                propValue = [], expressing = False\<rparr>, 2)"
proof -
  have i: "''x'' \<noteq> [] \<and> (\<forall>ch\<in>set ''x''. is_ident ch)"
    by (simp add: is_ident_def)
  have e: "exec props_re ''/>'' = Some (0, 2, TagEnd ''/>'')"
    by code_simp
  show ?thesis
    using self_closing_element [of "''x''"
        "\<lparr>current = ParseElement (VStr ''x'') None [], stack = [ParseElement (VStr []) None []],
           matcher = PROPS_RE, lineStart = False, propName = [], propValue = [],
           expressing = False\<rparr>" "''/>''" 2 "''/>''" "ParseElement (VStr []) None []" "[]"
        VUndefined] i e
    by (simp add: push_child_def del: exec.simps)
qed

section \<open>Props without a value, and values in quoted props\<close>

lemma prop_without_string:
  assumes "matcher st = PROPS_RE" and "exec props_re rest = Some (0, n, Prop name equals None)"
  shows "step exp st rest =
     (if \<not> equals then Inr (assign_props [(name, VBool True)] st, n)
      else if n < length rest then Inl (UnexpectedText (take 20 (drop n rest)))
      else if \<not> expressing st then Inl ExpressionExpected
      else Inr (assign_props [(name, exp)] (st\<lparr>expressing := False\<rparr>), n))"
  using assms by (simp add: step_def props_case_def prop_case_def)

lemma prop_with_string:
  assumes "matcher st = PROPS_RE"
    and "exec props_re rest = Some (0, n, Prop name equals (Some str))"
    and "\<not> (expressing st \<and> n = length rest)"
  shows "step exp st rest = Inr (assign_props [(name, VStr (formatString str))] st, n)"
  using assms by (auto simp: step_def props_case_def prop_case_def)

text \<open>
  C4: an attribute name with no \<^verbatim>\<open>=\<close> after it is the flag \<^verbatim>\<open>true\<close>. The source gives the
  name the string instead when a quoted string follows the name without \<^verbatim>\<open>=\<close>, which
  its grammar (\<^verbatim>\<open>$PROP: $IDENTIFIER ("=" $PROP_VALUE)?\<close>) does not allow.
\<close>

theorem prop_string_without_equals:
  \<open>parse [''<p a "b"/>''] [] =
     Inr (ParseElement (VStr []) None
           [ElementNode (ParseElement (VStr ''p'') (Some [(''a'', VStr ''b'')]) [])])
   \<and> parse [''<p a/>''] [] =
     Inr (ParseElement (VStr []) None
           [ElementNode (ParseElement (VStr ''p'') (Some [(''a'', VBool True)]) [])])\<close>
  by code_simp

lemma expression_in_quoted_value:
  assumes "matcher st = CLOSING_DOUBLE_QUOTE_RE" and "exec (closing_quote_re dquote) rest = None"
    and "expressing st"
  shows "\<exists>st'. step exp st rest = Inr (st', length rest) \<and>
           propValue st' = propValue st @ rest @ (if is_nullish exp then [] else String exp)"
  using assms
  by (simp add: step_def closing_quote_case_def Let_def append_expression_def)

text \<open>
  C6: a boolean between the quotes of a prop value contributes nothing where the span before
  it is empty or holds the opening quote, and is written as \<^verbatim>\<open>true\<close> or \<^verbatim>\<open>false\<close> where the
  span before it is a later, non-empty part of the value (line 336 tests \<^verbatim>\<open>exp != null\<close>
  only).
\<close>

theorem boolean_in_quoted_value:
  \<open>parse [''<p a="'', ''x'', ''"/>''] [VStr ''v'', VBool True] =
     Inr (ParseElement (VStr []) None
           [ElementNode (ParseElement (VStr ''p'') (Some [(''a'', VStr ''vxtrue'')]) [])])
   \<and> parse [''<p a="'', [], ''"/>''] [VStr ''v'', VBool True] =
     Inr (ParseElement (VStr []) None
           [ElementNode (ParseElement (VStr ''p'') (Some [(''a'', VStr ''v'')]) [])])
   \<and> parse [''<p a="x'', ''"/>''] [VBool True] =
     Inr (ParseElement (VStr []) None
           [ElementNode (ParseElement (VStr ''p'') (Some [(''a'', VStr ''x'')]) [])])\<close>
  by code_simp

section \<open>Comments\<close>

lemma comment_open_at_empty_last_span:
  assumes "matcher st = CLOSING_COMMENT_RE"
  shows "spans_loop st [[]] exprs = Inr (st\<lparr>expressing := False\<rparr>)"
  using assms by (simp add: begin_span_def)

lemma comment_open_at_last_span:
  assumes "matcher st = CLOSING_COMMENT_RE" and "rest \<noteq> []"
    and "exec closing_comment_re rest = None"
  shows "spans_loop st [rest] exprs = Inl MissingCommentTerminator"
proof -
  obtain a cs where r: "rest = a # cs" using assms(2) by (cases rest) auto
  have "step (expression_at exprs) (st\<lparr>expressing := False\<rparr>) rest = Inl MissingCommentTerminator"
    using assms by (simp add: step_def closing_comment_case_def)
  then show ?thesis
    using assms(2) by (simp add: begin_span_def r)
qed

text \<open>
  C8: a comment that is open at the end of the input and holds an expression throws
  "Missing -->" when text follows the last expression, and nothing when the last span is
  empty; a comment without expressions that is open at the end of the input is accepted.
\<close>

theorem unterminated_comment_with_expression:
  "parse [''<!--'', []] [VNum 1] = Inr (ParseElement (VStr []) None [])
   \<and> parse [''<!--'', '' ''] [VNum 1] = Inl MissingCommentTerminator
   \<and> parse [''<!-- abc''] [] = Inr (ParseElement (VStr []) None [])"
  by code_simp

section \<open>Text runs in Children mode\<close>


















section \<open>The tail of a closing tag\<close>

lemma exec_closing_tag_re:
  "exec closing_tag_re rest =
     (if CHR ''>'' \<in> set rest
      then Some (length (takeWhile (\<lambda>ch. ch \<noteq> CHR ''>'') rest), 1, ())
      else None)"
  by (induction rest) (auto simp: closing_tag_re_def)

text \<open>White space between the identifier of a closing tag and \<^verbatim>\<open>>\<close> throws as well.\<close>

theorem closing_tag_whitespace_counterexample:
  "parse [''<a></a >''] [] = Inl (UnexpectedText [])"
  by code_simp

text \<open>
  C9, as the code has it: in the mode of \<^verbatim>\<open>CLOSING_TAG_RE\<close> the scanner accepts \<^verbatim>\<open>>\<close> as the next character
  only, and returns to Children mode. Any text before the first \<^verbatim>\<open>>\<close> of the span, white
  space included, throws "Unexpected text" with the trimmed text; so does text without
  \<^verbatim>\<open>>\<close> in the last span.
\<close>

theorem closing_tag_tail:
  "matcher st = CLOSING_TAG_RE \<and> rest \<noteq> [] \<longrightarrow>
     (hd rest = CHR ''>'' \<longrightarrow> step exp st rest = Inr (st\<lparr>matcher := CHILDREN_RE\<rparr>, 1))
     \<and> (hd rest \<noteq> CHR ''>'' \<and> CHR ''>'' \<in> set rest \<longrightarrow>
          step exp st rest =
            Inl (UnexpectedText (trim (takeWhile (\<lambda>ch. ch \<noteq> CHR ''>'') rest))))
     \<and> (CHR ''>'' \<notin> set rest \<and> \<not> expressing st \<longrightarrow>
          step exp st rest = Inl (UnexpectedText (trim (take 20 rest))))"
proof -
  {
    assume m: "matcher st = CLOSING_TAG_RE" and r: "rest \<noteq> []"
    obtain a cs where rest: "rest = a # cs" using r by (cases rest) auto
    have a: "hd rest = CHR ''>'' \<Longrightarrow> step exp st rest = Inr (st\<lparr>matcher := CHILDREN_RE\<rparr>, 1)"
      using m rest by (simp add: step_def closing_tag_case_def closing_tag_re_def)
    have b: "hd rest \<noteq> CHR ''>'' \<Longrightarrow> CHR ''>'' \<in> set rest \<Longrightarrow>
          step exp st rest =
            Inl (UnexpectedText (trim (takeWhile (\<lambda>ch. ch \<noteq> CHR ''>'') rest)))"
      using m rest exec_closing_tag_re [of rest]
      by (simp add: step_def closing_tag_case_def takeWhile_eq_take [symmetric]
          del: exec.simps)
    have c: "CHR ''>'' \<notin> set rest \<Longrightarrow> \<not> expressing st \<Longrightarrow>
          step exp st rest = Inl (UnexpectedText (trim (take 20 rest)))"
      using m exec_closing_tag_re [of rest]
      by (simp add: step_def closing_tag_case_def del: exec.simps)
    note a b c
  }
  then show ?thesis by blast
qed

theorem closing_tag_tail_witness:
  "step VUndefined
     \<lparr>current = ParseElement (VStr []) None [ElementNode (ParseElement (VStr ''a'') None [])],
        stack = [], matcher = CLOSING_TAG_RE, lineStart = False, propName = [],
        propValue = [], expressing = False\<rparr> ''>''
     = Inr (\<lparr>current = ParseElement (VStr []) None
                          [ElementNode (ParseElement (VStr ''a'') None [])],
              stack = [], matcher = CHILDREN_RE, lineStart = False, propName = [],
              propValue = [], expressing = False\<rparr>, 1)
   \<and> step VUndefined
     \<lparr>current = ParseElement (VStr []) None [ElementNode (ParseElement (VStr ''a'') None [])],
        stack = [], matcher = CLOSING_TAG_RE, lineStart = False, propName = [],
        propValue = [], expressing = False\<rparr> '' >''
     = Inl (UnexpectedText [])
   \<and> step VUndefined
     \<lparr>current = ParseElement (VStr []) None [ElementNode (ParseElement (VStr ''a'') None [])],
        stack = [], matcher = CLOSING_TAG_RE, lineStart = False, propName = [],
        propValue = [], expressing = False\<rparr> '' x ''
     = Inl (UnexpectedText ''x'')"
proof -
  let ?st = "\<lparr>current = ParseElement (VStr []) None
                         [ElementNode (ParseElement (VStr ''a'') None [])],
        stack = [], matcher = CLOSING_TAG_RE, lineStart = False, propName = [],
        propValue = [], expressing = False\<rparr>"
  have t1: "trim (takeWhile (\<lambda>ch. ch \<noteq> CHR ''>'') '' >'') = []" by code_simp
  have t2: "trim (take 20 '' x '') = ''x''" by code_simp
  have a: "step VUndefined ?st ''>'' = Inr (?st\<lparr>matcher := CHILDREN_RE\<rparr>, 1)"
    using closing_tag_tail [of ?st "''>''" VUndefined] by simp
  have b: "step VUndefined ?st '' >'' = Inl (UnexpectedText [])"
    using closing_tag_tail [of ?st "'' >''" VUndefined] t1 by simp
  have c: "step VUndefined ?st '' x '' = Inl (UnexpectedText ''x'')"
    using closing_tag_tail [of ?st "'' x ''" VUndefined] t2 by simp
  from a b c show ?thesis by simp
qed

section \<open>The result of the template tag\<close>

subsection \<open>The root of a parse result\<close>

lemma root_initial: "root_invariant initial"
  by (simp add: root_invariant_def initial_def)

lemma root_push: "root_invariant st \<Longrightarrow> root_invariant (push n st)"
  by (auto simp: root_invariant_def push_def push_child_def split: if_splits)

lemma root_assign_props:
  "root_invariant st \<Longrightarrow> stack st \<noteq> [] \<Longrightarrow> root_invariant (assign_props s st)"
  by (auto simp: root_invariant_def assign_props_def split: if_splits)

lemma root_open_element: "root_invariant st \<Longrightarrow> root_invariant (open_element t st)"
  by (auto simp: root_invariant_def open_element_def split: if_splits)

lemma root_pop: "pop st = Inr st' \<Longrightarrow> root_invariant st \<Longrightarrow> root_invariant st'"
  by (auto simp: root_invariant_def pop_def push_child_def split: list.splits if_splits)

lemma root_update [simp]:
  "root_invariant (st\<lparr>matcher := m\<rparr>) = root_invariant st"
  "root_invariant (st\<lparr>lineStart := b\<rparr>) = root_invariant st"
  "root_invariant (st\<lparr>expressing := b\<rparr>) = root_invariant st"
  "root_invariant (st\<lparr>propName := s\<rparr>) = root_invariant st"
  "root_invariant (st\<lparr>propValue := s\<rparr>) = root_invariant st"
  by (simp_all add: root_invariant_def)

lemma root_begin_span: "root_invariant st \<Longrightarrow> root_invariant (begin_span exp f span st)"
  by (cases "matcher st") (auto simp: begin_span_def Let_def root_push)

lemma root_child_expression:
  "root_invariant st \<Longrightarrow> root_invariant (child_expression exp b st)"
  by (simp add: child_expression_def root_push)

lemma root_tag_case:
  "root_invariant st \<Longrightarrow> tag_case exp b slash name st = Inr st' \<Longrightarrow> root_invariant st'"
  by (auto simp: tag_case_def Let_def map_sum_def root_open_element
      split: if_splits sum.splits dest!: root_pop)

lemma root_children_case:
  assumes "root_invariant st" and "children_case exp st rest m = Inr (st', e)"
  shows "root_invariant st'"
proof (cases m)
  case None
  with assms show ?thesis
    by (auto simp: children_case_def Let_def root_push root_child_expression)
next
  case (Some p)
  obtain k n g where p: "p = (k, n, g)" by (cases p)
  let ?st1 = "if 0 < k then
                (let beforeText = text_before (lineStart st) (g = Newline) (take k rest)
                 in if beforeText \<noteq> [] then push (ValueNode (VStr beforeText)) st else st)
              else st"
  have r1: "root_invariant ?st1" using assms(1) by (simp add: Let_def root_push)
  show ?thesis
  proof (cases g)
    case Newline
    with assms(2) Some p r1 show ?thesis
      by (auto simp: children_case_def Let_def root_child_expression)
  next
    case Comment
    with assms(2) Some p r1 show ?thesis
      by (auto simp: children_case_def Let_def root_child_expression split: if_splits)
  next
    case (Tag slash name)
    with assms(2) Some p obtain st3 where
      t: "tag_case exp (k + n = length rest) slash name (?st1\<lparr>lineStart := False\<rparr>) = Inr st3"
      and s: "st' = child_expression exp (k + n = length rest) st3"
      by (auto simp: children_case_def Let_def map_sum_def split: sum.splits)
    have "root_invariant st3" using root_tag_case [OF _ t] r1 by simp
    with s show ?thesis by (simp add: root_child_expression)
  qed
qed

lemma root_props_case:
  assumes "root_invariant st" and "stack st \<noteq> []" and "props_case exp st rest m = Inr (st', e)"
  shows "root_invariant st'"
proof (cases m)
  case None
  with assms show ?thesis by (auto simp: props_case_def split: if_splits)
next
  case (Some p)
  obtain k n g where p: "p = (k, n, g)" by (cases p)
  show ?thesis
  proof (cases g)
    case (TagEnd te)
    with assms Some p show ?thesis
      by (auto simp: props_case_def Let_def map_sum_def root_push
          split: if_splits sum.splits dest!: root_pop)
  next
    case Spread
    with assms Some p show ?thesis
      by (auto simp: props_case_def map_sum_def root_assign_props split: if_splits sum.splits)
  next
    case (Prop name equals string)
    with assms Some p show ?thesis
      by (auto simp: props_case_def prop_case_def map_sum_def root_assign_props
          split: if_splits sum.splits option.splits)
  qed
qed

lemma root_closing_quote_case:
  assumes "root_invariant st" and "stack st \<noteq> []"
    and "closing_quote_case exp st rest m = Inr (st', e)"
  shows "root_invariant st'"
  using assms
  by (cases m) (auto simp: closing_quote_case_def Let_def root_assign_props split: if_splits)

lemma root_step:
  assumes "props_invariant st" and "root_invariant st" and "step exp st rest = Inr (st', e)"
  shows "root_invariant st'"
proof (cases "matcher st")
  case CHILDREN_RE
  with assms show ?thesis by (auto simp: step_def dest: root_children_case)
next
  case PROPS_RE
  with assms show ?thesis
    by (auto simp: step_def props_invariant_def dest: root_props_case)
next
  case CLOSING_TAG_RE
  with assms show ?thesis
    by (auto simp: step_def closing_tag_case_def split: option.splits if_splits)
next
  case CLOSING_SINGLE_QUOTE_RE
  with assms show ?thesis
    by (auto simp: step_def props_invariant_def dest: root_closing_quote_case)
next
  case CLOSING_DOUBLE_QUOTE_RE
  with assms show ?thesis
    by (auto simp: step_def props_invariant_def dest: root_closing_quote_case)
next
  case CLOSING_COMMENT_RE
  with assms show ?thesis
    by (auto simp: step_def closing_comment_case_def split: option.splits if_splits)
qed

lemma root_scan:
  "props_invariant st \<Longrightarrow> root_invariant st \<Longrightarrow> scan exp st rest = Inr st' \<Longrightarrow>
   root_invariant st'"
proof (induction exp st rest rule: scan.induct)
  case (1 exp st)
  then show ?case by simp
next
  case (2 exp st c cs)
  from "2.prems"(3) obtain st1 e where
    s: "step exp st (c # cs) = Inr (st1, e)" and r: "scan exp st1 (drop e (c # cs)) = Inr st'"
    by (auto split: sum.splits)
  have "props_invariant st1" using step_inv [OF "2.prems"(1) s] .
  moreover have "root_invariant st1" using root_step [OF "2.prems"(1,2) s] .
  ultimately show ?case using "2.IH" [OF s refl] r by simp
qed

lemma root_spans_loop:
  "props_invariant st \<Longrightarrow> root_invariant st \<Longrightarrow> spans_loop st spans exprs = Inr st' \<Longrightarrow>
   root_invariant st'"
proof (induction spans arbitrary: st exprs)
  case Nil
  then show ?case by simp
next
  case (Cons span spans)
  let ?exp = "expression_at exprs"
  let ?st0 = "begin_span ?exp (spans \<noteq> []) span st"
  have p0: "props_invariant ?st0" using Cons.prems(1) by (rule inv_begin_span)
  have r0: "root_invariant ?st0" using Cons.prems(2) by (rule root_begin_span)
  from Cons.prems(3) obtain st1 where
    s: "scan ?exp ?st0 span = Inr st1" and l: "spans_loop st1 spans (tl exprs) = Inr st'"
    by (auto simp: Let_def split: sum.splits if_splits)
  have "props_invariant st1" using scan_inv [OF p0, of ?exp span] s by simp
  moreover have "root_invariant st1" using root_scan [OF p0 r0 s] .
  ultimately show ?case using Cons.IH l by blast
qed

lemma parse_root:
  assumes "parse spans expressions = Inr parsed"
  shows "tag parsed = VStr [] \<and> props parsed = None"
proof -
  from assms obtain st where
    l: "spans_loop initial spans expressions = Inr st" and e: "stack st = []"
    and c: "parsed = current st"
    by (auto simp: parse_def split: sum.splits if_splits)
  have "root_invariant st" using root_spans_loop [OF inv_initial root_initial l] .
  with e c show ?thesis by (simp add: root_invariant_def)
qed

subsection \<open>The result\<close>

lemma parse_sole_expression:
  "parse [[], []] [v] = Inr (ParseElement (VStr []) None [ValueNode v])"
  by (simp add: parse_def initial_def begin_span_def expression_at_def push_def push_child_def)

text \<open>The input that is a single substitution returns the root around the value.\<close>

theorem sole_value_counterexample:
  "template [[], []] [VNum 5] = Inr (createElement (VStr []) None [ValueChild (VNum 5)])
   \<and> createElement (VStr []) None [ValueChild (VNum 5)]
       = Element (VStr []) None [ValueChild (VNum 5)]"
  by code_simp

text \<open>
  C7, as the code has it: the root of a parse result has the empty tag and no props. When
  the parse result has no children the template tag returns the element with the empty tag
  and no children; when its sole child is an element, it returns that element in place of
  the root; when its sole child is a value, as for the input that is a single substitution,
  it returns the root, the element with the empty tag and no props, with that value as its
  only child.
\<close>

theorem template_sole_child:
  "(parse spans expressions = Inr parsed \<longrightarrow>
      tag parsed = VStr [] \<and> props parsed = None
      \<and> (children parsed = [] \<longrightarrow>
         template spans expressions = Inr (createElement (VStr []) None []))
      \<and> (children parsed = [ElementNode el] \<longrightarrow>
         template spans expressions = Inr (createElementsFromParse el))
      \<and> (children parsed = [ValueNode v] \<longrightarrow>
         template spans expressions = Inr (createElement (VStr []) None [ValueChild v])
         \<and> template spans expressions =
           Inr (createElement (tag parsed) (props parsed) [ValueChild v])))
   \<and> template [[], []] [v] = Inr (createElement (VStr []) None [ValueChild v])"
proof -
  have a: "template [[], []] [v] = Inr (createElement (VStr []) None [ValueChild v])"
    using parse_sole_expression [of v] by (simp add: template_def)
  {
    assume p: "parse spans expressions = Inr parsed"
    have r: "tag parsed = VStr [] \<and> props parsed = None"
      using p by (rule parse_root)
    have b: "children parsed = [] \<Longrightarrow>
         template spans expressions = Inr (createElement (VStr []) None [])"
      using p by (simp add: template_def)
    have c: "children parsed = [ElementNode el] \<Longrightarrow>
         template spans expressions = Inr (createElementsFromParse el)"
      using p by (simp add: template_def)
    have d: "children parsed = [ValueNode v] \<Longrightarrow>
         template spans expressions =
           Inr (createElement (tag parsed) (props parsed) [ValueChild v])"
      using p by (cases parsed) (simp add: template_def)
    have d': "children parsed = [ValueNode v] \<Longrightarrow>
         template spans expressions = Inr (createElement (VStr []) None [ValueChild v])"
      using d r by simp
    note r b c d d'
  }
  with a show ?thesis by blast
qed

theorem template_sole_child_witness:
  "template [''<x/>''] [] = Inr (createElement (VStr ''x'') None [])
   \<and> template [[]] [] = Inr (createElement (VStr []) None [])
   \<and> template [''a''] [] = Inr (createElement (VStr []) None [ValueChild (VStr ''a'')])
   \<and> template [''<!--'', '' --> ''] [VNum 1] = Inr (createElement (VStr []) None [])
   \<and> template [[], [], []] [VNum 1, VNull] =
       Inr (createElement (VStr []) None [ValueChild (VNum 1), ValueChild VNull])"
proof -
  have p1: "parse [''<x/>''] [] =
     Inr (ParseElement (VStr []) None [ElementNode (ParseElement (VStr ''x'') None [])])"
    by code_simp
  have p2: "parse [[]] [] = Inr (ParseElement (VStr []) None [])"
    by code_simp
  have p3: "parse [''a''] [] = Inr (ParseElement (VStr []) None [ValueNode (VStr ''a'')])"
    by code_simp
  have a: "template [''<x/>''] [] = Inr (createElement (VStr ''x'') None [])"
    using template_sole_child [of "[''<x/>'']" "[]" _ "ParseElement (VStr ''x'') None []"] p1
    by simp
  have b: "template [[]] [] = Inr (createElement (VStr []) None [])"
    using template_sole_child [of "[[]]" "[]"] p2 by simp
  have c: "template [''a''] [] = Inr (createElement (VStr []) None [ValueChild (VStr ''a'')])"
    using template_sole_child [of "[''a'']" "[]" _ _ "VStr ''a''"] p3 by simp
  have d: "template [''<!--'', '' --> ''] [VNum 1] = Inr (createElement (VStr []) None [])"
    by code_simp
  have e: "template [[], [], []] [VNum 1, VNull] =
       Inr (createElement (VStr []) None [ValueChild (VNum 1), ValueChild VNull])"
    by code_simp
  from a b c d e show ?thesis by simp
qed

end
